theory Spec2Isabelle
  imports Main "HOL-Library.Word" "HOL-Library.Char_ord" "HOL-Library.List_Lexorder"
begin

unbundle bit_operations_syntax

section \<open>Task identifiers (src/utils/task-id.ts)\<close>

text \<open>
  JavaScript strings are modelled as \<^typ>\<open>string\<close>; \<^term>\<open>of_char c\<close> stands for
  \<^verbatim>\<open>str.charCodeAt(i)\<close>.  The running hash of \<^verbatim>\<open>simpleHash\<close> is a JavaScript
  number that is forced back to a signed 32-bit integer by \<^verbatim>\<open>hash & hash\<close> after every
  character and that enters \<^verbatim>\<open>hash << 5\<close> through the same conversion, so it is a
  \<^typ>\<open>32 word\<close> read with \<^const>\<open>sint\<close>.
\<close>

definition hashStep :: "32 word \<Rightarrow> char \<Rightarrow> 32 word" where
  "hashStep hash c =
     (let char = of_char c;
          hash1 = (push_bit 5 hash - hash) + char
      in hash1 AND hash1)"

fun hashLoop :: "32 word \<Rightarrow> string \<Rightarrow> 32 word" where
  "hashLoop hash [] = hash"
| "hashLoop hash (c # str) = hashLoop (hashStep hash c) str"

definition digit36 :: "nat \<Rightarrow> char" where
  "digit36 d = ''0123456789abcdefghijklmnopqrstuvwxyz'' ! d"

text \<open>\<^verbatim>\<open>Number.prototype.toString(36)\<close> on a non-negative integer.\<close>

fun toString36 :: "nat \<Rightarrow> string" where
  "toString36 n =
     (if n < 36 then [digit36 n] else toString36 (n div 36) @ [digit36 (n mod 36)])"

declare toString36.simps [simp del]

definition simpleHash :: "string \<Rightarrow> string" where
  "simpleHash str = toString36 (nat \<bar>sint (hashLoop 0 str)\<bar>)"

definition generateTaskId :: "string \<Rightarrow> string \<Rightarrow> string" where
  "generateTaskId batchId r2Key = batchId @ ''_tiff_'' @ simpleHash r2Key"


section \<open>Queue message (src/types/queue.ts)\<close>

record QueueFileInfo =
  r2_key :: string
  logical_path :: string
  file_name :: string
  file_size :: int
  content_type :: string
  cid :: "string option"

record DirectoryGroup =
  directory_path :: string
  files :: "QueueFileInfo list"

text \<open>
  Only the fields of the message that the phase reads are kept; the field \<^verbatim>\<open>batch_id\<close>
  of the message is named \<open>message_batch_id\<close> because the batch state has a field of the
  same name.
\<close>

record QueueMessage =
  message_batch_id :: string
  r2_prefix :: string
  uploader :: string
  directories :: "DirectoryGroup list"


section \<open>Tasks and batch state\<close>

text \<open>
  Modelled from the spec: the declarations of \<^verbatim>\<open>TiffConversionTask\<close>, of its status
  and of \<^verbatim>\<open>BatchState\<close> (\<^verbatim>\<open>src/types/state.ts\<close>).  A task status is one of
  \<open>pending\<close>, \<open>processing\<close>, \<open>completed\<close> and \<open>failed\<close>.  The task record has the fields
  that the phase reads or writes, the optional ones as options; the batch state has the
  batch id, the task map and the three counters, which are all that the phase touches.
\<close>

datatype TaskStatus = pending | processing | completed | failed

record TiffConversionTask =
  task_id :: string
  status :: TaskStatus
  input_r2_key :: string
  input_file_name :: string
  retry_count :: int
  started_at :: "string option"
  completed_at :: "string option"
  fly_machine_id :: "string option"
  output_r2_key :: "string option"
  output_file_name :: "string option"
  output_file_size :: "int option"
  error :: "string option"

text \<open>
  \<open>current_phase_tasks\<close> is a JavaScript object keyed by task id.  It is kept as the list
  of its entries in the object's own enumeration order, which is the order in which
  \<^verbatim>\<open>Object.values\<close> returns the task objects (for keys of the form of a task id, the
  order of insertion).  A task object is referred to by its position in that list.
\<close>

record BatchState =
  batch_id :: string
  current_phase_tasks :: "(string \<times> TiffConversionTask) list"
  tasks_total :: int
  tasks_completed :: int
  tasks_failed :: int

definition objectValues :: "BatchState \<Rightarrow> TiffConversionTask list" where
  "objectValues state = map snd (current_phase_tasks state)"


section \<open>The TIFF conversion phase (src/phases/tiff-conversion.ts)\<close>

subsection \<open>isTiff: the regular expression \<^verbatim>\<open>/\.tiff?$/i\<close>\<close>

text \<open>
  The pattern is a sequence of literal characters, one optional literal and the end
  anchor.  With the \<^verbatim>\<open>i\<close> flag two characters match when their canonical forms are
  equal; the canonical form is the upper-case character, and a character outside ASCII
  never canonicalises to an ASCII character, so for the ASCII letters of this pattern
  only the ASCII upper-casing matters.  Without the \<^verbatim>\<open>m\<close> flag the anchor matches at
  the end of the input only.
\<close>

datatype RegExpItem = Lit char | OptLit char | EndAnchor

definition toUpperCase :: "char \<rightharpoonup> char" where
  "toUpperCase =
     map_of (zip ''abcdefghijklmnopqrstuvwxyz'' ''ABCDEFGHIJKLMNOPQRSTUVWXYZ'')"

definition canonicalize :: "char \<Rightarrow> char" where
  "canonicalize c = (case toUpperCase c of Some u \<Rightarrow> u | None \<Rightarrow> c)"

fun matchHere :: "RegExpItem list \<Rightarrow> string \<Rightarrow> bool" where
  "matchHere [] s = True"
| "matchHere (Lit c # p) [] = False"
| "matchHere (Lit c # p) (x # s) = (canonicalize x = canonicalize c \<and> matchHere p s)"
| "matchHere (OptLit c # p) [] = matchHere p []"
| "matchHere (OptLit c # p) (x # s) =
     ((canonicalize x = canonicalize c \<and> matchHere p s) \<or> matchHere p (x # s))"
| "matchHere (EndAnchor # p) s = (s = [] \<and> matchHere p s)"

text \<open>\<^verbatim>\<open>RegExp.prototype.test\<close>: a match may start at any index of the input.\<close>

fun test :: "RegExpItem list \<Rightarrow> string \<Rightarrow> bool" where
  "test p [] = matchHere p []"
| "test p (x # s) = (matchHere p (x # s) \<or> test p s)"

definition tiffPattern :: "RegExpItem list" where
  "tiffPattern =
     [Lit (CHR ''.''), Lit (CHR ''t''), Lit (CHR ''i''), Lit (CHR ''f''),
      OptLit (CHR ''f''), EndAnchor]"

definition isTiff :: "string \<Rightarrow> bool" where
  "isTiff fileName = test tiffPattern fileName"

subsection \<open>discover\<close>

definition newTask :: "string \<Rightarrow> QueueFileInfo \<Rightarrow> TiffConversionTask" where
  "newTask batchId file =
     \<lparr> task_id = generateTaskId batchId (r2_key file),
       status = pending,
       input_r2_key = r2_key file,
       input_file_name = file_name file,
       retry_count = 0,
       started_at = None, completed_at = None, fly_machine_id = None,
       output_r2_key = None, output_file_name = None, output_file_size = None,
       error = None \<rparr>"

definition discover :: "QueueMessage \<Rightarrow> TiffConversionTask list" where
  "discover queueMessage =
     [newTask (message_batch_id queueMessage) file.
        directory \<leftarrow> directories queueMessage,
        file \<leftarrow> files directory,
        isTiff (file_name file)]"


subsection \<open>Configuration, environment and the Fly machines API\<close>

text \<open>
  Modelled from the spec: the declarations of \<^verbatim>\<open>Config\<close> (\<^verbatim>\<open>src/types/config.ts\<close>)
  and \<^verbatim>\<open>Env\<close> (\<^verbatim>\<open>src/config.ts\<close>).  The records hold the fields that the phase
  reads.  The batch size is a JavaScript number and is kept as an integer, so that a
  negative setting is a value of the model.
\<close>

record Config =
  BATCH_SIZE_TIFF_CONVERSION :: int
  FLY_APP_NAME :: string
  FLY_WORKER_IMAGE :: string
  FLY_REGION :: string
  ORCHESTRATOR_URL :: string

record Env =
  R2_ACCOUNT_ID :: string
  R2_ACCESS_KEY_ID :: string
  R2_SECRET_ACCESS_KEY :: string
  R2_BUCKET :: "string option"
  FLY_API_TOKEN :: string

text \<open>
  The body of the request that creates a machine.  The constant parts of the machine
  configuration (\<^verbatim>\<open>auto_destroy\<close>, the restart policy and the guest shape) are left out.
\<close>

record MachineConfig =
  machine_name :: string
  machine_image :: string
  machine_TASK_ID :: string
  machine_BATCH_ID :: string
  machine_INPUT_R2_KEY :: string
  machine_R2_ACCOUNT_ID :: string
  machine_R2_ACCESS_KEY_ID :: string
  machine_R2_SECRET_ACCESS_KEY :: string
  machine_R2_BUCKET :: string
  machine_CALLBACK_URL :: string
  machine_region :: string

record FlyRequest =
  request_url :: string
  request_authorization :: string
  request_body :: MachineConfig

text \<open>
  What the machines API answers to one request: the request or the reading of its body
  is rejected, the response is not \<^verbatim>\<open>ok\<close> (status and body text), or the response
  is read as the new machine, with the \<^verbatim>\<open>id\<close> it carries, if any.
\<close>

datatype FlyResponse = FetchRejected string | NotOk nat string | Machine "string option"

datatype SpawnError = FetchError string | FlyApiError nat string

datatype PromiseSettled = fulfilled | rejected SpawnError

text \<open>
  The outside world of one call of \<^verbatim>\<open>executeBatch\<close>: the answer of the machines API to
  the \<open>n\<close>-th request of the call, and the reading of the clock in the \<open>i\<close>-th round of
  the loop that records the results.
\<close>

type_synonym FlyApi = "nat \<Rightarrow> FlyRequest \<Rightarrow> FlyResponse"
type_synonym Clock = "nat \<Rightarrow> string"

definition orDefault :: "string option \<Rightarrow> string \<Rightarrow> string" where
  "orDefault v d = (case v of None \<Rightarrow> d | Some x \<Rightarrow> if x = [] then d else x)"

definition machineRequest ::
  "TiffConversionTask \<Rightarrow> BatchState \<Rightarrow> Config \<Rightarrow> Env \<Rightarrow> FlyRequest" where
  "machineRequest task state config env =
     \<lparr> request_url =
         ''https://api.machines.dev/v1/apps/'' @ FLY_APP_NAME config @ ''/machines'',
       request_authorization = ''Bearer '' @ FLY_API_TOKEN env,
       request_body =
         \<lparr> machine_name = ''tiff-'' @ task_id task,
           machine_image = FLY_WORKER_IMAGE config,
           machine_TASK_ID = task_id task,
           machine_BATCH_ID = batch_id state,
           machine_INPUT_R2_KEY = input_r2_key task,
           machine_R2_ACCOUNT_ID = R2_ACCOUNT_ID env,
           machine_R2_ACCESS_KEY_ID = R2_ACCESS_KEY_ID env,
           machine_R2_SECRET_ACCESS_KEY = R2_SECRET_ACCESS_KEY env,
           machine_R2_BUCKET = orDefault (R2_BUCKET env) ''arke-staging'',
           machine_CALLBACK_URL =
             ORCHESTRATOR_URL config @ ''/callback/'' @ batch_id state @ ''/'' @ task_id task,
           machine_region = FLY_REGION config \<rparr> \<rparr>"

text \<open>
  \<^verbatim>\<open>spawnFlyMachine\<close>, given the answer to its request: it throws, or it stores the
  machine id in the task.
\<close>

definition spawnFlyMachine :: "FlyResponse \<Rightarrow> TiffConversionTask \<Rightarrow> SpawnError + TiffConversionTask" where
  "spawnFlyMachine response task =
     (case response of
        FetchRejected reason \<Rightarrow> Inl (FetchError reason)
      | NotOk code errorText \<Rightarrow> Inl (FlyApiError code errorText)
      | Machine machine_id \<Rightarrow> Inr (task\<lparr>fly_machine_id := machine_id\<rparr>))"

subsection \<open>executeBatch\<close>

text \<open>\<^verbatim>\<open>Array.prototype.slice(0, end)\<close>: a negative \<open>end\<close> counts from the end of the array.\<close>

definition sliceFrom0 :: "int \<Rightarrow> 'a list \<Rightarrow> 'a list" where
  "sliceFrom0 end xs =
     (if end < 0 then take (nat (int (length xs) + end)) xs else take (nat end) xs)"

text \<open>
  \<open>pendingTasks\<close> is an array of references to task objects of the state.  The
  references are the positions of the objects in \<open>objectValues\<close>.
\<close>

definition pendingRefs :: "BatchState \<Rightarrow> Config \<Rightarrow> nat list" where
  "pendingRefs state config =
     sliceFrom0 (BATCH_SIZE_TIFF_CONVERSION config)
       (filter (\<lambda>r. status (objectValues state ! r) = pending)
          [0..<length (objectValues state)])"

definition pendingTasks :: "BatchState \<Rightarrow> Config \<Rightarrow> TiffConversionTask list" where
  "pendingTasks state config = map (\<lambda>r. objectValues state ! r) (pendingRefs state config)"

type_synonym TaskEntries = "(string \<times> TiffConversionTask) list"

definition updateTask ::
  "nat \<Rightarrow> (TiffConversionTask \<Rightarrow> TiffConversionTask) \<Rightarrow> TaskEntries \<Rightarrow> TaskEntries" where
  "updateTask r f entries = entries[r := (fst (entries ! r), f (snd (entries ! r)))]"

text \<open>
  \<^verbatim>\<open>Promise.allSettled(pendingTasks.map(task => this.spawnFlyMachine(...)))\<close>: one
  request per selected task; a fulfilled spawn has written the machine id into its task.
\<close>

fun spawnAll ::
  "FlyApi \<Rightarrow> BatchState \<Rightarrow> Config \<Rightarrow> Env \<Rightarrow> nat \<Rightarrow> nat list \<Rightarrow> TaskEntries
     \<Rightarrow> (FlyRequest \<times> PromiseSettled) list \<times> TaskEntries" where
  "spawnAll fly state config env n [] entries = ([], entries)"
| "spawnAll fly state config env n (r # refs) entries =
     (let task = snd (entries ! r);
          request = machineRequest task state config env
      in case spawnFlyMachine (fly n request) task of
           Inl reason \<Rightarrow>
             (let (settled, entries') = spawnAll fly state config env (Suc n) refs entries
              in ((request, rejected reason) # settled, entries'))
         | Inr task' \<Rightarrow>
             (let (settled, entries') =
                    spawnAll fly state config env (Suc n) refs (updateTask r (\<lambda>_. task') entries)
              in ((request, fulfilled) # settled, entries')))"

text \<open>The loop that marks the successfully spawned tasks as processing.\<close>

fun markSpawned :: "Clock \<Rightarrow> nat \<Rightarrow> nat list \<Rightarrow> PromiseSettled list \<Rightarrow> TaskEntries \<Rightarrow> TaskEntries" where
  "markSpawned clock i (r # refs) (result # spawnResults) entries =
     markSpawned clock (Suc i) refs spawnResults
       (case result of
          fulfilled \<Rightarrow>
            updateTask r (\<lambda>task. task\<lparr>status := processing, started_at := Some (clock i)\<rparr>) entries
        | rejected reason \<Rightarrow> entries)"
| "markSpawned clock i refs spawnResults entries = entries"

record ExecuteBatchResult =
  more_work :: bool
  state_after :: BatchState
  spawn_requests :: "FlyRequest list"

definition executeBatch ::
  "FlyApi \<Rightarrow> Clock \<Rightarrow> BatchState \<Rightarrow> Config \<Rightarrow> Env \<Rightarrow> ExecuteBatchResult" where
  "executeBatch fly clock state config env =
     (let refs = pendingRefs state config
      in if length refs = 0 then
           (let allDone =
                  list_all (\<lambda>t. status t = completed \<or> status t = failed) (objectValues state)
            in if allDone
               then \<lparr> more_work = False, state_after = state, spawn_requests = [] \<rparr>
               else \<lparr> more_work = True, state_after = state, spawn_requests = [] \<rparr>)
         else
           (let (settled, entries1) =
                  spawnAll fly state config env 0 refs (current_phase_tasks state);
                entries2 = markSpawned clock 0 refs (map snd settled) entries1
            in \<lparr> more_work = True,
                 state_after = state\<lparr>current_phase_tasks := entries2\<rparr>,
                 spawn_requests = map fst settled \<rparr>))"

subsection \<open>handleCallback (src/types/callback.ts for the payload)\<close>

datatype CallbackStatus = status_success | status_error

record TiffCallbackResult =
  result_task_id :: string
  result_batch_id :: string
  result_status :: CallbackStatus
  result_output_r2_key :: "string option"
  result_output_file_name :: "string option"
  result_output_file_size :: "int option"
  result_total_time_ms :: "int option"
  result_error :: "string option"

text \<open>
  The method mutates the task object and the batch state it is given; the model returns
  both.  \<open>now\<close> is the reading of the clock.
\<close>

definition handleCallback ::
  "string \<Rightarrow> TiffConversionTask \<Rightarrow> TiffCallbackResult \<Rightarrow> BatchState
     \<Rightarrow> TiffConversionTask \<times> BatchState" where
  "handleCallback now task result state =
     (if result_status result = status_success then
        (task\<lparr> status := completed,
               output_r2_key := result_output_r2_key result,
               output_file_name := result_output_file_name result,
               output_file_size := result_output_file_size result,
               completed_at := Some now \<rparr>,
         state\<lparr> tasks_completed := tasks_completed state + 1 \<rparr>)
      else
        (task\<lparr> status := failed, error := result_error result \<rparr>,
         state\<lparr> tasks_failed := tasks_failed state + 1 \<rparr>))"


section \<open>The HTTP handler of the worker\<close>

text \<open>
  The request as the handler reads it: method, path of the URL, and the outcome of
  \<^verbatim>\<open>request.json()\<close>, which is the parsed body or the message of the error it throws.
  Parsed JSON is a type parameter.
\<close>

record 'j Request =
  request_method :: string
  pathname :: string
  request_json :: "string + 'j"

datatype 'j ResponseBody =
  NoBody | TextBody string | HealthBody string | ErrorBody string
  | OkBody | ResetBody | JsonBody 'j

record 'j Response =
  response_status :: nat
  response_body :: "'j ResponseBody"

text \<open>
  The handler reaches the durable object of a batch (\<^verbatim>\<open>src/batch-do.ts\<close>) through a
  stub, which is a parameter of the model: a call takes the name of the batch and the
  storage \<open>'s\<close> of the durable objects and returns the new storage.  \<open>handleCallback\<close>
  returns the message of the error it throws, if any; \<open>fetch\<close> returns that message, or
  the status of the response and the outcome of reading its body as JSON.
\<close>

record ('j, 's) PreprocessingDOStub =
  stub_handleCallback :: "string \<Rightarrow> string \<Rightarrow> 'j \<Rightarrow> 's \<Rightarrow> string option \<times> 's"
  stub_fetch :: "string \<Rightarrow> string \<Rightarrow> string \<Rightarrow> 's \<Rightarrow> (string + nat \<times> (string + 'j)) \<times> 's"

fun split :: "char \<Rightarrow> string \<Rightarrow> string list" where
  "split sep [] = [[]]"
| "split sep (c # cs) =
     (if c = sep then [] # split sep cs
      else (case split sep cs of [] \<Rightarrow> [[c]] | part # parts \<Rightarrow> (c # part) # parts))"

definition startsWith :: "string \<Rightarrow> string \<Rightarrow> bool" where
  "startsWith s p = (take (length p) s = p)"

text \<open>\<^verbatim>\<open>parts[i]\<close>, where \<^verbatim>\<open>undefined\<close> is \<open>None\<close>.\<close>

definition at_index :: "'a list \<Rightarrow> nat \<Rightarrow> 'a option" where
  "at_index xs i = (if i < length xs then Some (xs ! i) else None)"

text \<open>\<^verbatim>\<open>!id\<close> for a string or \<^verbatim>\<open>undefined\<close>.\<close>

definition falsy :: "string option \<Rightarrow> bool" where
  "falsy v = (case v of None \<Rightarrow> True | Some x \<Rightarrow> x = [])"

definition caught :: "string \<Rightarrow> 'j Response" where
  "caught message = \<lparr> response_status = 500, response_body = ErrorBody message \<rparr>"

definition fetch ::
  "('j, 's) PreprocessingDOStub \<Rightarrow> string \<Rightarrow> 'j Request \<Rightarrow> 's \<Rightarrow> 'j Response \<times> 's" where
  "fetch stub now request storage =
     (if request_method request = ''OPTIONS'' then
        (\<lparr> response_status = 200, response_body = NoBody \<rparr>, storage)
      else if pathname request = ''/health'' then
        (\<lparr> response_status = 200, response_body = HealthBody now \<rparr>, storage)
      else if startsWith (pathname request) ''/status/'' then
        (let batchId = at_index (split (CHR ''/'') (pathname request)) 2
         in if falsy batchId then
              (\<lparr> response_status = 400, response_body = ErrorBody ''Missing batch ID'' \<rparr>, storage)
            else
              (case stub_fetch stub (the batchId) ''https://internal/status'' ''GET'' storage of
                 (Inl message, storage') \<Rightarrow> (caught message, storage')
               | (Inr (code, Inl message), storage') \<Rightarrow> (caught message, storage')
               | (Inr (code, Inr data), storage') \<Rightarrow>
                   (\<lparr> response_status = code, response_body = JsonBody data \<rparr>, storage')))
      else if startsWith (pathname request) ''/callback/'' \<and> request_method request = ''POST'' then
        (let parts = split (CHR ''/'') (pathname request);
             batchId = at_index parts 2;
             taskId = at_index parts 3
         in if falsy batchId \<or> falsy taskId then
              (\<lparr> response_status = 400,
                 response_body = ErrorBody ''Missing batch ID or task ID'' \<rparr>, storage)
            else
              (case request_json request of
                 Inl message \<Rightarrow> (caught message, storage)
               | Inr callbackResult \<Rightarrow>
                   (case stub_handleCallback stub (the batchId) (the taskId) callbackResult storage of
                      (Some message, storage') \<Rightarrow> (caught message, storage')
                    | (None, storage') \<Rightarrow>
                        (\<lparr> response_status = 200, response_body = OkBody \<rparr>, storage'))))
      else if startsWith (pathname request) ''/admin/reset/'' \<and> request_method request = ''POST'' then
        (let batchId = at_index (split (CHR ''/'') (pathname request)) 3
         in if falsy batchId then
              (\<lparr> response_status = 400, response_body = ErrorBody ''Missing batch ID'' \<rparr>, storage)
            else
              (case stub_fetch stub (the batchId) ''https://internal/reset'' ''POST'' storage of
                 (Inl message, storage') \<Rightarrow> (caught message, storage')
               | (Inr response, storage') \<Rightarrow>
                   (\<lparr> response_status = 200, response_body = ResetBody \<rparr>, storage')))
      else (\<lparr> response_status = 404, response_body = TextBody ''Not Found'' \<rparr>, storage))"


section \<open>Notions of the specification\<close>

text \<open>
  A file name qualifies for the phase when, compared without regard to the case of ASCII
  letters, it ends in \<^verbatim>\<open>.tif\<close> or \<^verbatim>\<open>.tiff\<close>.  This is the wording of the
  specification, stated independently of the regular expression of the source.
\<close>

definition toLowerCase :: "char \<rightharpoonup> char" where
  "toLowerCase =
     map_of (zip ''ABCDEFGHIJKLMNOPQRSTUVWXYZ'' ''abcdefghijklmnopqrstuvwxyz'')"

definition lowerCase :: "string \<Rightarrow> string" where
  "lowerCase s = map (\<lambda>c. case toLowerCase c of Some l \<Rightarrow> l | None \<Rightarrow> c) s"

definition endsWith :: "string \<Rightarrow> string \<Rightarrow> bool" where
  "endsWith s suffix =
     (length suffix \<le> length s \<and> drop (length s - length suffix) s = suffix)"

definition qualifies :: "string \<Rightarrow> bool" where
  "qualifies fileName =
     (endsWith (lowerCase fileName) ''.tif'' \<or> endsWith (lowerCase fileName) ''.tiff'')"

text \<open>
  The specification's order of selection: the first pending tasks in the lexicographic
  order of their task ids.
\<close>

definition firstPendingByTaskId :: "BatchState \<Rightarrow> Config \<Rightarrow> TiffConversionTask list" where
  "firstPendingByTaskId state config =
     take (nat (BATCH_SIZE_TIFF_CONVERSION config))
       (sort_key task_id (filter (\<lambda>t. status t = pending) (objectValues state)))"


section \<open>Auxiliary notions for the proofs\<close>

text \<open>
  How a settled spawn shows in the array of results, what it has written into its task,
  and what the loop over the results does to a task.
\<close>

definition settle :: "SpawnError + TiffConversionTask \<Rightarrow> PromiseSettled" where
  "settle outcome = (case outcome of Inl reason \<Rightarrow> rejected reason | Inr task' \<Rightarrow> fulfilled)"

definition written :: "SpawnError + TiffConversionTask \<Rightarrow> TiffConversionTask \<Rightarrow> TiffConversionTask" where
  "written outcome task = (case outcome of Inl reason \<Rightarrow> task | Inr task' \<Rightarrow> task')"

definition marked :: "string \<Rightarrow> PromiseSettled \<Rightarrow> TiffConversionTask \<Rightarrow> TiffConversionTask" where
  "marked now result task =
     (case result of
        fulfilled \<Rightarrow> task\<lparr>status := processing, started_at := Some now\<rparr>
      | rejected reason \<Rightarrow> task)"


section \<open>Example inputs\<close>

definition exampleFile :: "string \<Rightarrow> QueueFileInfo" where
  "exampleFile name =
     \<lparr> r2_key = ''s/B1/'' @ name, logical_path = ''/'' @ name, file_name = name,
       file_size = 10, content_type = ''image/tiff'', cid = None \<rparr>"

definition exampleMessage :: "string list \<Rightarrow> QueueMessage" where
  "exampleMessage names =
     \<lparr> message_batch_id = ''B1'', r2_prefix = ''s/B1/'', uploader = ''u'',
       directories = [\<lparr> directory_path = ''/'', files = map exampleFile names \<rparr>] \<rparr>"

text \<open>A batch state that holds the given tasks under their task ids, in the given order.\<close>

definition exampleState :: "TiffConversionTask list \<Rightarrow> BatchState" where
  "exampleState tasks =
     \<lparr> batch_id = ''B1'', current_phase_tasks = map (\<lambda>t. (task_id t, t)) tasks,
       tasks_total = int (length tasks), tasks_completed = 0, tasks_failed = 0 \<rparr>"

definition exampleConfig :: "int \<Rightarrow> Config" where
  "exampleConfig batchSize =
     \<lparr> BATCH_SIZE_TIFF_CONVERSION = batchSize, FLY_APP_NAME = ''arke-tiff-worker'',
       FLY_WORKER_IMAGE = ''registry.fly.io/arke-tiff-worker:latest'', FLY_REGION = ''ord'',
       ORCHESTRATOR_URL = ''https://arke-preprocessing.workers.dev'' \<rparr>"

definition exampleEnv :: Env where
  "exampleEnv =
     \<lparr> R2_ACCOUNT_ID = ''acct'', R2_ACCESS_KEY_ID = ''key'', R2_SECRET_ACCESS_KEY = ''secret'',
       R2_BUCKET = None, FLY_API_TOKEN = ''token'' \<rparr>"

text \<open>A machines API that accepts the first request of a call and answers 500 to the others.\<close>

definition exampleFly :: FlyApi where
  "exampleFly n request = (if n = 0 then Machine (Some ''m-1'') else NotOk 500 ''unavailable'')"

definition exampleClock :: Clock where
  "exampleClock i = ''2025-01-01T00:00:00.000Z''"

text \<open>The task of a file of batch \<open>B1\<close>, in a given status.\<close>

definition exampleTask :: "string \<Rightarrow> TaskStatus \<Rightarrow> TiffConversionTask" where
  "exampleTask name s = (newTask ''B1'' (exampleFile name))\<lparr>status := s\<rparr>"

text \<open>The state of batch \<open>B1\<close> that holds the tasks discovered for the given file names.\<close>

definition exampleBatch :: "string list \<Rightarrow> BatchState" where
  "exampleBatch names = exampleState (discover (exampleMessage names))"

definition exampleError :: TiffCallbackResult where
  "exampleError =
     \<lparr> result_task_id = ''B1_tiff_f4dk12'', result_batch_id = ''B1'',
       result_status = status_error,
       result_output_r2_key = None, result_output_file_name = None,
       result_output_file_size = None, result_total_time_ms = None,
       result_error = Some ''sharp failure'' \<rparr>"

definition exampleSuccess :: TiffCallbackResult where
  "exampleSuccess =
     \<lparr> result_task_id = ''B1_tiff_f4dk12'', result_batch_id = ''B1'',
       result_status = status_success,
       result_output_r2_key = Some ''s/B1/a.jpg'', result_output_file_name = Some ''a.jpg'',
       result_output_file_size = Some 5, result_total_time_ms = None,
       result_error = None \<rparr>"

text \<open>
  A durable object stub that counts the calls it receives and never throws, and a POST
  request with a given path and body.
\<close>

definition exampleStub :: "(TiffCallbackResult, nat) PreprocessingDOStub" where
  "exampleStub =
     \<lparr> stub_handleCallback = (\<lambda>batchId taskId result calls. (None, calls + 1)),
       stub_fetch = (\<lambda>batchId url method calls. (Inr (200, Inr exampleSuccess), calls + 1)) \<rparr>"

definition exampleRequest ::
  "string \<Rightarrow> (string + TiffCallbackResult) \<Rightarrow> TiffCallbackResult Request" where
  "exampleRequest path body =
     \<lparr> request_method = ''POST'', pathname = path, request_json = body \<rparr>"


section \<open>The file-name test\<close>

lemma canonicalize_dot: "canonicalize x = canonicalize (CHR ''.'') \<longleftrightarrow> lowerCase [x] = ''.''"
  by (auto simp add: canonicalize_def toUpperCase_def lowerCase_def toLowerCase_def split: if_splits)

lemma canonicalize_t: "canonicalize x = canonicalize (CHR ''t'') \<longleftrightarrow> lowerCase [x] = ''t''"
  by (auto simp add: canonicalize_def toUpperCase_def lowerCase_def toLowerCase_def split: if_splits)

lemma canonicalize_i: "canonicalize x = canonicalize (CHR ''i'') \<longleftrightarrow> lowerCase [x] = ''i''"
  by (auto simp add: canonicalize_def toUpperCase_def lowerCase_def toLowerCase_def split: if_splits)

lemma canonicalize_f: "canonicalize x = canonicalize (CHR ''f'') \<longleftrightarrow> lowerCase [x] = ''f''"
  by (auto simp add: canonicalize_def toUpperCase_def lowerCase_def toLowerCase_def split: if_splits)

lemma lowerCase_Cons: "lowerCase (x # s) = lowerCase [x] @ lowerCase s"
  by (simp add: lowerCase_def)

lemma lowerCase_Nil: "lowerCase [] = []"
  by (simp add: lowerCase_def)

lemma lowerCase_single: "\<exists>c. lowerCase [x] = [c]"
  by (simp add: lowerCase_def)

lemma matchHere_Lit: "matchHere (Lit c # p) u \<longleftrightarrow> (\<exists>x v. u = x # v \<and> canonicalize x = canonicalize c \<and> matchHere p v)"
  by (cases u) simp_all

lemma matchHere_OptLit: "matchHere (OptLit c # p) u \<longleftrightarrow>
   (\<exists>x v. u = x # v \<and> canonicalize x = canonicalize c \<and> matchHere p v) \<or> matchHere p u"
  by (cases u) simp_all

lemma matchHere_tiffPattern:
  "matchHere tiffPattern u \<longleftrightarrow> lowerCase u = ''.tif'' \<or> lowerCase u = ''.tiff''"
proof -
  have "matchHere tiffPattern u \<longleftrightarrow>
     (\<exists>a b c d. u = [a, b, c, d] \<and> lowerCase [a] = ''.'' \<and> lowerCase [b] = ''t''
        \<and> lowerCase [c] = ''i'' \<and> lowerCase [d] = ''f'')
     \<or> (\<exists>a b c d e. u = [a, b, c, d, e] \<and> lowerCase [a] = ''.'' \<and> lowerCase [b] = ''t''
        \<and> lowerCase [c] = ''i'' \<and> lowerCase [d] = ''f'' \<and> lowerCase [e] = ''f'')"
    unfolding tiffPattern_def matchHere_Lit matchHere_OptLit
    by (auto simp add: canonicalize_dot canonicalize_t canonicalize_i canonicalize_f)
  also have "\<dots> \<longleftrightarrow> lowerCase u = ''.tif'' \<or> lowerCase u = ''.tiff''"
    by (auto simp add: lowerCase_def map_eq_Cons_conv)
  finally show ?thesis .
qed

lemma test_iff: "test p s \<longleftrightarrow> (\<exists>k\<le>length s. matchHere p (drop k s))"
proof (induction s)
  case Nil
  then show ?case by simp
next
  case (Cons x s)
  have "(\<exists>k\<le>length (x # s). matchHere p (drop k (x # s)))
      \<longleftrightarrow> matchHere p (x # s) \<or> (\<exists>k\<le>length s. matchHere p (drop k s))"
  proof
    assume "\<exists>k\<le>length (x # s). matchHere p (drop k (x # s))"
    then obtain k where k: "k \<le> length (x # s)" "matchHere p (drop k (x # s))" by blast
    show "matchHere p (x # s) \<or> (\<exists>k\<le>length s. matchHere p (drop k s))"
    proof (cases k)
      case 0
      with k show ?thesis by simp
    next
      case (Suc j)
      with k have "j \<le> length s" "matchHere p (drop j s)" by simp_all
      then show ?thesis by blast
    qed
  next
    assume "matchHere p (x # s) \<or> (\<exists>k\<le>length s. matchHere p (drop k s))"
    then show "\<exists>k\<le>length (x # s). matchHere p (drop k (x # s))"
    proof
      assume "matchHere p (x # s)"
      then have "0 \<le> length (x # s) \<and> matchHere p (drop 0 (x # s))" by simp
      then show ?thesis by blast
    next
      assume "\<exists>k\<le>length s. matchHere p (drop k s)"
      then obtain k where "k \<le> length s" "matchHere p (drop k s)" by blast
      then have "Suc k \<le> length (x # s) \<and> matchHere p (drop (Suc k) (x # s))" by simp
      then show ?thesis by blast
    qed
  qed
  with Cons show ?case by simp
qed

lemma endsWith_iff: "endsWith t w \<longleftrightarrow> (\<exists>k\<le>length t. drop k t = w)"
proof
  assume "endsWith t w"
  then have "length t - length w \<le> length t \<and> drop (length t - length w) t = w"
    by (simp add: endsWith_def)
  then show "\<exists>k\<le>length t. drop k t = w" by blast
next
  assume "\<exists>k\<le>length t. drop k t = w"
  then obtain k where k: "k \<le> length t" "drop k t = w" by blast
  then have "length w = length t - k" by auto
  with k show "endsWith t w" by (simp add: endsWith_def)
qed

lemma lowerCase_drop: "lowerCase (drop k s) = drop k (lowerCase s)"
  by (simp add: lowerCase_def drop_map)

lemma isTiff_iff_qualifies: "isTiff fileName \<longleftrightarrow> qualifies fileName"
  unfolding isTiff_def qualifies_def test_iff matchHere_tiffPattern endsWith_iff lowerCase_drop
  by (auto simp add: lowerCase_def)


section \<open>The spawn loops of executeBatch\<close>

lemma updateTask_length: "length (updateTask r f es) = length es"
  by (simp add: updateTask_def)

lemma updateTask_other: "p \<noteq> r \<Longrightarrow> updateTask r f es ! p = es ! p"
  by (simp add: updateTask_def)

lemma updateTask_same: "r < length es \<Longrightarrow> updateTask r f es ! r = (fst (es ! r), f (snd (es ! r)))"
  by (simp add: updateTask_def)

lemma spawnAll_Cons:
  "spawnAll fly st c e n (r # refs) es =
     (let task = snd (es ! r);
          request = machineRequest task st c e;
          outcome = spawnFlyMachine (fly n request) task;
          rest = spawnAll fly st c e (Suc n) refs
                   (case outcome of Inl reason \<Rightarrow> es | Inr task' \<Rightarrow> updateTask r (\<lambda>_. task') es)
      in ((request, settle outcome) # fst rest, snd rest))"
  by (simp add: Let_def settle_def split: sum.splits prod.splits)

lemma spawnAll_length:
  "length (fst (spawnAll fly st c e n refs es)) = length refs
   \<and> length (snd (spawnAll fly st c e n refs es)) = length es"
proof (induction refs arbitrary: n es)
  case Nil
  show ?case by simp
next
  case (Cons r refs)
  show ?case
    unfolding spawnAll_Cons Let_def
    by (simp add: Cons.IH updateTask_length split: sum.splits)
qed

lemma spawnAll_other:
  "p \<notin> set refs \<Longrightarrow> snd (spawnAll fly st c e n refs es) ! p = es ! p"
proof (induction refs arbitrary: n es)
  case Nil
  show ?case by simp
next
  case (Cons r refs)
  from Cons.prems have "p \<noteq> r" "p \<notin> set refs" by simp_all
  then show ?case
    unfolding spawnAll_Cons Let_def
    by (simp add: Cons.IH updateTask_other split: sum.splits)
qed

lemma spawnAll_selected:
  "distinct refs \<Longrightarrow> j < length refs \<Longrightarrow> \<forall>r\<in>set refs. r < length es \<Longrightarrow>
   fst (spawnAll fly st c e n refs es) ! j =
     (machineRequest (snd (es ! (refs ! j))) st c e,
      settle (spawnFlyMachine (fly (n + j) (machineRequest (snd (es ! (refs ! j))) st c e))
                (snd (es ! (refs ! j)))))
   \<and> snd (spawnAll fly st c e n refs es) ! (refs ! j) =
     (fst (es ! (refs ! j)),
      written (spawnFlyMachine (fly (n + j) (machineRequest (snd (es ! (refs ! j))) st c e))
                 (snd (es ! (refs ! j))))
              (snd (es ! (refs ! j))))"
proof (induction refs arbitrary: n es j)
  case Nil
  then show ?case by simp
next
  case (Cons r refs)
  define outcome where
    "outcome = spawnFlyMachine (fly n (machineRequest (snd (es ! r)) st c e)) (snd (es ! r))"
  define es1 where
    "es1 = (case outcome of Inl reason \<Rightarrow> es | Inr task' \<Rightarrow> updateTask r (\<lambda>_. task') es)"
  have unfold: "spawnAll fly st c e n (r # refs) es =
      ((machineRequest (snd (es ! r)) st c e, settle outcome)
         # fst (spawnAll fly st c e (Suc n) refs es1),
       snd (spawnAll fly st c e (Suc n) refs es1))"
    unfolding spawnAll_Cons Let_def outcome_def es1_def by simp
  from Cons.prems have r: "r \<notin> set refs" "distinct refs" "r < length es"
    and bound: "\<forall>q\<in>set refs. q < length es" by simp_all
  have len1: "length es1 = length es"
    unfolding es1_def by (simp add: updateTask_length split: sum.splits)
  have at_r: "es1 ! r = (fst (es ! r), written outcome (snd (es ! r)))"
    unfolding es1_def written_def using r(3) by (simp add: updateTask_same split: sum.splits)
  show ?case
  proof (cases j)
    case 0
    have "snd (spawnAll fly st c e (Suc n) refs es1) ! r = es1 ! r"
      using r(1) by (rule spawnAll_other)
    with 0 at_r show ?thesis
      unfolding unfold outcome_def by simp
  next
    case (Suc i)
    with Cons.prems have i: "i < length refs" by simp
    then have "refs ! i \<in> set refs" by simp
    with r(1) have neq: "refs ! i \<noteq> r" by auto
    have same: "es1 ! (refs ! i) = es ! (refs ! i)"
      unfolding es1_def using neq by (simp add: updateTask_other split: sum.splits)
    from bound len1 have "\<forall>q\<in>set refs. q < length es1" by simp
    from Cons.IH [OF r(2) i this, of "Suc n"] same Suc show ?thesis
      unfolding unfold by simp
  qed
qed

lemma markSpawned_length: "length (markSpawned clock i refs results es) = length es"
  by (induction clock i refs results es rule: markSpawned.induct)
     (simp_all add: updateTask_length split: PromiseSettled.splits)

lemma markSpawned_other:
  "p \<notin> set refs \<Longrightarrow> markSpawned clock i refs results es ! p = es ! p"
  by (induction clock i refs results es rule: markSpawned.induct)
     (auto simp add: updateTask_other split: PromiseSettled.splits)

lemma markSpawned_selected:
  "distinct refs \<Longrightarrow> j < length refs \<Longrightarrow> length results = length refs \<Longrightarrow>
   \<forall>r\<in>set refs. r < length es \<Longrightarrow>
   markSpawned clock i refs results es ! (refs ! j) =
     (fst (es ! (refs ! j)), marked (clock (i + j)) (results ! j) (snd (es ! (refs ! j))))"
proof (induction refs arbitrary: i results es j)
  case Nil
  then show ?case by simp
next
  case (Cons r refs)
  from Cons.prems(3) obtain result spawnResults
    where results: "results = result # spawnResults" and len: "length spawnResults = length refs"
    by (cases results) simp_all
  define es1 where "es1 = (case result of
          fulfilled \<Rightarrow>
            updateTask r (\<lambda>task. task\<lparr>status := processing, started_at := Some (clock i)\<rparr>) es
        | rejected reason \<Rightarrow> es)"
  have unfold: "markSpawned clock i (r # refs) (result # spawnResults) es =
      markSpawned clock (Suc i) refs spawnResults es1"
    unfolding es1_def by simp
  from Cons.prems have r: "r \<notin> set refs" "distinct refs" "r < length es"
    and bound: "\<forall>q\<in>set refs. q < length es" by simp_all
  have len1: "length es1 = length es"
    unfolding es1_def by (simp add: updateTask_length split: PromiseSettled.splits)
  have at_r: "es1 ! r = (fst (es ! r), marked (clock i) result (snd (es ! r)))"
    unfolding es1_def marked_def using r(3)
    by (cases "es ! r") (simp add: updateTask_same split: PromiseSettled.splits)
  show ?case
  proof (cases j)
    case 0
    have "markSpawned clock (Suc i) refs spawnResults es1 ! r = es1 ! r"
      using r(1) by (rule markSpawned_other)
    with 0 at_r show ?thesis unfolding results unfold by simp
  next
    case (Suc k)
    with Cons.prems have k: "k < length refs" by simp
    then have "refs ! k \<in> set refs" by simp
    with r(1) have neq: "refs ! k \<noteq> r" by auto
    have same: "es1 ! (refs ! k) = es ! (refs ! k)"
      unfolding es1_def using neq by (simp add: updateTask_other split: PromiseSettled.splits)
    from bound len1 have b1: "\<forall>q\<in>set refs. q < length es1" by simp
    from Cons.IH [OF r(2) k len b1, of "Suc i"] same Suc show ?thesis
      unfolding results unfold by simp
  qed
qed

lemma sliceFrom0_take: "\<exists>k. sliceFrom0 n xs = take k xs"
  by (auto simp add: sliceFrom0_def)

lemma sliceFrom0_nonneg: "0 \<le> n \<Longrightarrow> sliceFrom0 n xs = take (nat n) xs"
  by (simp add: sliceFrom0_def)

lemma sliceFrom0_map: "sliceFrom0 n (map f xs) = map f (sliceFrom0 n xs)"
  by (simp add: sliceFrom0_def take_map)

lemma pendingRefs_distinct: "distinct (pendingRefs st c)"
proof -
  obtain k where "pendingRefs st c =
      take k (filter (\<lambda>r. status (objectValues st ! r) = pending) [0..<length (objectValues st)])"
    unfolding pendingRefs_def using sliceFrom0_take by blast
  then show ?thesis by simp
qed

lemma pendingRefs_sorted: "sorted_wrt (<) (pendingRefs st c)"
proof -
  obtain k where "pendingRefs st c =
      take k (filter (\<lambda>r. status (objectValues st ! r) = pending) [0..<length (objectValues st)])"
    unfolding pendingRefs_def using sliceFrom0_take by blast
  then show ?thesis by (simp add: sorted_wrt_take sorted_wrt_filter)
qed

lemma pendingRefs_pending:
  assumes "r \<in> set (pendingRefs st c)"
  shows "r < length (objectValues st) \<and> status (objectValues st ! r) = pending"
proof -
  obtain k where "pendingRefs st c =
      take k (filter (\<lambda>r. status (objectValues st ! r) = pending) [0..<length (objectValues st)])"
    unfolding pendingRefs_def using sliceFrom0_take by blast
  with assms have
    "r \<in> set (filter (\<lambda>r. status (objectValues st ! r) = pending) [0..<length (objectValues st)])"
    by (auto dest: in_set_takeD)
  then show ?thesis by simp
qed

lemma pendingTasks_source:
  "pendingTasks st c =
     sliceFrom0 (BATCH_SIZE_TIFF_CONVERSION c)
       (filter (\<lambda>t. status t = pending) (objectValues st))"
proof -
  have "filter (\<lambda>t. status t = pending) (objectValues st)
      = filter (\<lambda>t. status t = pending) (map (\<lambda>r. objectValues st ! r) [0..<length (objectValues st)])"
    by (simp add: map_nth)
  also have "\<dots> = map (\<lambda>r. objectValues st ! r)
      (filter (\<lambda>r. status (objectValues st ! r) = pending) [0..<length (objectValues st)])"
    by (simp add: filter_map comp_def)
  finally show ?thesis
    by (simp add: pendingTasks_def pendingRefs_def sliceFrom0_map)
qed

lemma executeBatch_idle:
  "pendingRefs st c = [] \<Longrightarrow>
   executeBatch fly clock st c e =
     \<lparr> more_work = \<not> list_all (\<lambda>t. status t = completed \<or> status t = failed) (objectValues st),
       state_after = st, spawn_requests = [] \<rparr>"
  by (simp add: executeBatch_def)

lemma executeBatch_spawning:
  "pendingRefs st c \<noteq> [] \<Longrightarrow>
   executeBatch fly clock st c e =
     \<lparr> more_work = True,
       state_after = st\<lparr>current_phase_tasks :=
         markSpawned clock 0 (pendingRefs st c)
           (map snd (fst (spawnAll fly st c e 0 (pendingRefs st c) (current_phase_tasks st))))
           (snd (spawnAll fly st c e 0 (pendingRefs st c) (current_phase_tasks st)))\<rparr>,
       spawn_requests =
         map fst (fst (spawnAll fly st c e 0 (pendingRefs st c) (current_phase_tasks st))) \<rparr>"
  by (simp add: executeBatch_def Let_def split: prod.splits)

lemma executeBatch_length:
  "length (objectValues (state_after (executeBatch fly clock st c e))) = length (objectValues st)"
proof (cases "pendingRefs st c = []")
  case True
  then show ?thesis by (simp add: executeBatch_idle)
next
  case False
  then show ?thesis
    by (simp add: executeBatch_spawning objectValues_def markSpawned_length spawnAll_length)
qed

lemma executeBatch_other:
  assumes "p < length (objectValues st)" and "p \<notin> set (pendingRefs st c)"
  shows "objectValues (state_after (executeBatch fly clock st c e)) ! p = objectValues st ! p"
proof (cases "pendingRefs st c = []")
  case True
  then show ?thesis by (simp add: executeBatch_idle)
next
  case False
  from assms(1) have p: "p < length (current_phase_tasks st)" by (simp add: objectValues_def)
  then show ?thesis
    using assms(2) False
    by (simp add: executeBatch_spawning objectValues_def markSpawned_length spawnAll_length
        markSpawned_other spawnAll_other)
qed

lemma executeBatch_selected:
  assumes j: "j < length (pendingRefs st c)"
  shows "objectValues (state_after (executeBatch fly clock st c e)) ! (pendingRefs st c ! j) =
       marked (clock j)
         (settle (spawnFlyMachine
            (fly j (machineRequest (objectValues st ! (pendingRefs st c ! j)) st c e))
            (objectValues st ! (pendingRefs st c ! j))))
         (written (spawnFlyMachine
            (fly j (machineRequest (objectValues st ! (pendingRefs st c ! j)) st c e))
            (objectValues st ! (pendingRefs st c ! j)))
          (objectValues st ! (pendingRefs st c ! j)))
     \<and> spawn_requests (executeBatch fly clock st c e) ! j =
         machineRequest (objectValues st ! (pendingRefs st c ! j)) st c e"
proof -
  define refs where "refs = pendingRefs st c"
  define es where "es = current_phase_tasks st"
  define S where "S = spawnAll fly st c e 0 refs es"
  from j have nonempty: "pendingRefs st c \<noteq> []" by auto
  have dist: "distinct refs" unfolding refs_def by (rule pendingRefs_distinct)
  have jr: "j < length refs" using j by (simp add: refs_def)
  have bound: "\<forall>r\<in>set refs. r < length es"
    unfolding refs_def es_def using pendingRefs_pending [of _ st c]
    by (simp add: objectValues_def)
  have rj: "refs ! j < length es" using bound jr by simp
  have val: "objectValues st ! (refs ! j) = snd (es ! (refs ! j))"
    using rj by (simp add: objectValues_def es_def)
  have lenS: "length (fst S) = length refs" "length (snd S) = length es"
    unfolding S_def using spawnAll_length [of fly st c e 0 refs es] by simp_all
  have sel: "fst S ! j =
       (machineRequest (snd (es ! (refs ! j))) st c e,
        settle (spawnFlyMachine (fly j (machineRequest (snd (es ! (refs ! j))) st c e))
                  (snd (es ! (refs ! j)))))"
    "snd S ! (refs ! j) =
       (fst (es ! (refs ! j)),
        written (spawnFlyMachine (fly j (machineRequest (snd (es ! (refs ! j))) st c e))
                   (snd (es ! (refs ! j))))
                (snd (es ! (refs ! j))))"
    unfolding S_def using spawnAll_selected [OF dist jr bound, of fly st c e 0] by simp_all
  have bound2: "\<forall>r\<in>set refs. r < length (snd S)" using bound lenS by simp
  have len2: "length (map snd (fst S)) = length refs" using lenS by simp
  have mark: "markSpawned clock 0 refs (map snd (fst S)) (snd S) ! (refs ! j) =
       (fst (snd S ! (refs ! j)),
        marked (clock (0 + j)) (map snd (fst S) ! j) (snd (snd S ! (refs ! j))))"
    by (rule markSpawned_selected [OF dist jr len2 bound2])
  have res: "executeBatch fly clock st c e =
     \<lparr> more_work = True,
       state_after = st\<lparr>current_phase_tasks := markSpawned clock 0 refs (map snd (fst S)) (snd S)\<rparr>,
       spawn_requests = map fst (fst S) \<rparr>"
    unfolding S_def refs_def es_def by (rule executeBatch_spawning [OF nonempty])
  have lenM: "refs ! j < length (markSpawned clock 0 refs (map snd (fst S)) (snd S))"
    using rj lenS by (simp add: markSpawned_length)
  show ?thesis
    unfolding refs_def [symmetric] res val
    using lenM jr lenS mark sel by (simp add: objectValues_def)
qed

lemma executeBatch_frame:
  "batch_id (state_after (executeBatch fly clock st c e)) = batch_id st
   \<and> tasks_total (state_after (executeBatch fly clock st c e)) = tasks_total st
   \<and> tasks_completed (state_after (executeBatch fly clock st c e)) = tasks_completed st
   \<and> tasks_failed (state_after (executeBatch fly clock st c e)) = tasks_failed st"
  by (cases "pendingRefs st c = []") (simp_all add: executeBatch_idle executeBatch_spawning)

lemma executeBatch_requests:
  "spawn_requests (executeBatch fly clock st c e) =
     map (\<lambda>task. machineRequest task st c e) (pendingTasks st c)"
proof (cases "pendingRefs st c = []")
  case True
  then show ?thesis by (simp add: executeBatch_idle pendingTasks_def)
next
  case False
  have len: "length (spawn_requests (executeBatch fly clock st c e)) = length (pendingRefs st c)"
    using False by (simp add: executeBatch_spawning spawnAll_length)
  show ?thesis
  proof (rule nth_equalityI)
    show "length (spawn_requests (executeBatch fly clock st c e)) =
        length (map (\<lambda>task. machineRequest task st c e) (pendingTasks st c))"
      using len by (simp add: pendingTasks_def)
  next
    fix j assume "j < length (spawn_requests (executeBatch fly clock st c e))"
    with len have j: "j < length (pendingRefs st c)" by simp
    from executeBatch_selected [OF j, of fly clock e] j
    show "spawn_requests (executeBatch fly clock st c e) ! j =
        map (\<lambda>task. machineRequest task st c e) (pendingTasks st c) ! j"
      by (simp add: pendingTasks_def)
  qed
qed


section \<open>Evaluation rules\<close>

lemmas hash_eval = generateTaskId_def simpleHash_def hashStep_def toString36.simps digit36_def
lemmas tiff_eval = isTiff_def tiffPattern_def canonicalize_def toUpperCase_def
lemmas qualifies_eval = qualifies_def endsWith_def lowerCase_def toLowerCase_def
lemmas example_eval = exampleMessage_def exampleFile_def
lemmas batch_eval = exampleBatch_def exampleState_def discover_def newTask_def example_eval
  tiff_eval hash_eval objectValues_def exampleConfig_def
lemmas execute_eval = executeBatch_def pendingRefs_def sliceFrom0_def updateTask_def
  machineRequest_def spawnFlyMachine_def exampleFly_def exampleEnv_def exampleClock_def
  orDefault_def
lemmas task_eval = exampleTask_def newTask_def exampleFile_def exampleState_def hash_eval
  exampleError_def exampleSuccess_def


section \<open>Task identifiers\<close>

text \<open>
  One step of the hash is \<open>31 * hash + char\<close> in 32-bit arithmetic, so the keys
  \<open>p @ ''Aa'' @ s\<close> and \<open>p @ ''BB'' @ s\<close> have the same hash for every \<open>p\<close> and \<open>s\<close>.
\<close>

lemma hashStep_31: "hashStep x c = 31 * x + of_char c"
  by (simp add: hashStep_def push_bit_eq_mult)

lemma hashLoop_Aa_BB: "hashLoop h (p @ ''Aa'' @ s) = hashLoop h (p @ ''BB'' @ s)"
proof (induction p arbitrary: h)
  case Nil
  have "hashStep (hashStep h (CHR ''A'')) (CHR ''a'') = hashStep (hashStep h (CHR ''B'')) (CHR ''B'')"
    unfolding hashStep_31 by (simp add: ring_distribs)
  then show ?case by simp
next
  case (Cons c p)
  then show ?case by simp
qed

lemma generateTaskId_Aa_BB:
  "generateTaskId batchId (p @ ''Aa'' @ s) = generateTaskId batchId (p @ ''BB'' @ s)"
  by (simp only: generateTaskId_def simpleHash_def hashLoop_Aa_BB)

text \<open>
  Claim C10.  Task ids can collide within a batch: the id holds the batch id and the
  base-36 text of the absolute value of a 32-bit hash of the key, not the key.  In batch
  \<open>B1\<close> the distinct keys \<open>s/B1/Aa.tif\<close> and \<open>s/B1/BB.tif\<close> get the same task id, and
  discovery over a message that lists both files, which both qualify, returns two tasks
  with that one id.
\<close>

theorem generateTaskId_collision:
  "''s/B1/Aa.tif'' \<noteq> ''s/B1/BB.tif''
   \<and> generateTaskId ''B1'' ''s/B1/Aa.tif'' = ''B1_tiff_pqotj''
   \<and> generateTaskId ''B1'' ''s/B1/BB.tif'' = ''B1_tiff_pqotj''
   \<and> map (\<lambda>t. (task_id t, input_r2_key t)) (discover (exampleMessage [''Aa.tif'', ''BB.tif''])) =
       [(''B1_tiff_pqotj'', ''s/B1/Aa.tif''), (''B1_tiff_pqotj'', ''s/B1/BB.tif'')]"
  by (simp add: discover_def newTask_def example_eval tiff_eval hash_eval)


section \<open>Discovery\<close>

lemma comprehension_inner:
  "concat (map (\<lambda>x. if P x then [g x] else []) xs) = map g (filter P xs)"
  by (induction xs) simp_all

lemma discover_map:
  "discover m =
     map (newTask (message_batch_id m))
       (filter (\<lambda>file. isTiff (file_name file)) (concat (map files (directories m))))"
proof -
  have "concat (map (\<lambda>d. concat (map (\<lambda>x. if P x then [g x] else []) (files d))) ds)
      = map g (filter P (concat (map files ds)))" for P g and ds :: "DirectoryGroup list"
    by (induction ds) (simp_all add: comprehension_inner)
  then show ?thesis by (simp add: discover_def)
qed

lemma map_filter_pairs:
  "map g (filter (\<lambda>x. P (h x)) xs) = map snd (filter (\<lambda>p. P (fst p)) (map (\<lambda>x. (h x, g x)) xs))"
  by (induction xs) simp_all

text \<open>
  Claim C5.  For every queue message, \<open>discover\<close> returns one task per file, over all
  directories and in the order of the message, whose file name ends in \<^verbatim>\<open>.tif\<close> or
  \<^verbatim>\<open>.tiff\<close> without regard to case, and no task for any other file.  Each task has
  status \<open>pending\<close>, retry count 0, the file's key as its input key and
  \<open>generateTaskId\<close> of the batch id and that key as its task id.  The result is a function
  of the message, so equal messages give equal tasks.
\<close>

theorem discover_tasks:
  "map (\<lambda>t. (task_id t, status t, retry_count t, input_r2_key t)) (discover m) =
     map (\<lambda>file. (generateTaskId (message_batch_id m) (r2_key file), pending, 0, r2_key file))
       (filter (\<lambda>file. qualifies (file_name file)) (concat (map files (directories m))))"
  by (simp add: discover_map isTiff_iff_qualifies newTask_def comp_def)

theorem discover_tasks_witness:
  "map (\<lambda>t. (task_id t, status t, retry_count t, input_r2_key t))
     (discover (exampleMessage [''a.tiff'', ''b.jpg'', ''c.TIF'', ''d.pdf''])) =
   [(''B1_tiff_f4dk12'', pending, 0, ''s/B1/a.tiff''), (''B1_tiff_e9kdya'', pending, 0, ''s/B1/c.TIF'')]"
  using discover_tasks [of "exampleMessage [''a.tiff'', ''b.jpg'', ''c.TIF'', ''d.pdf'']"]
  by (simp add: example_eval qualifies_eval hash_eval)

text \<open>
  Claim C7.  Task ids are deterministic.  \<open>generateTaskId\<close> is a function of the batch id
  and the key alone: it reads no clock, counter or other state.  Hence the ids that
  discovery assigns depend on the batch id and on the names and keys of the listed files
  only: two messages that agree on these get the same ids in the same order, whatever
  else differs between them, and discovery over the same message again gives the same
  ids.
\<close>

theorem task_ids_deterministic:
  assumes "message_batch_id m = message_batch_id m'"
    and "map (\<lambda>file. (file_name file, r2_key file)) (concat (map files (directories m))) =
         map (\<lambda>file. (file_name file, r2_key file)) (concat (map files (directories m')))"
  shows "map task_id (discover m) = map task_id (discover m')
     \<and> (\<forall>t\<in>set (discover m). task_id t = message_batch_id m @ ''_tiff_'' @ simpleHash (input_r2_key t))"
proof -
  define ids where "ids b ps =
      map snd (filter (\<lambda>p. isTiff (fst p)) (map (\<lambda>p. (fst p, generateTaskId b (snd p))) ps))"
    for b :: string and ps :: "(string \<times> string) list"
  have "map task_id (discover x) =
      ids (message_batch_id x)
        (map (\<lambda>file. (file_name file, r2_key file)) (concat (map files (directories x))))" for x
    unfolding discover_map ids_def
    by (simp add: newTask_def comp_def
        map_filter_pairs [of _ isTiff file_name, symmetric])
  with assms have "map task_id (discover m) = map task_id (discover m')" by simp
  moreover have "\<forall>t\<in>set (discover m).
      task_id t = message_batch_id m @ ''_tiff_'' @ simpleHash (input_r2_key t)"
    unfolding discover_map by (auto simp add: newTask_def generateTaskId_def)
  ultimately show ?thesis by simp
qed

theorem task_ids_deterministic_witness:
  "map task_id (discover (exampleMessage [''a.tiff'', ''b.jpg'', ''c.TIF''])) =
   map task_id (discover
     \<lparr> message_batch_id = ''B1'', r2_prefix = ''elsewhere/'', uploader = ''someone else'',
       directories =
         [\<lparr> directory_path = ''/x'', files = [exampleFile ''a.tiff''] \<rparr>,
          \<lparr> directory_path = ''/y'',
            files = [(exampleFile ''b.jpg'')\<lparr>file_size := 77\<rparr>,
                     (exampleFile ''c.TIF'')\<lparr>cid := Some ''bafy''\<rparr>] \<rparr>] \<rparr>)"
  using task_ids_deterministic [of "exampleMessage [''a.tiff'', ''b.jpg'', ''c.TIF'']"
     "\<lparr> message_batch_id = ''B1'', r2_prefix = ''elsewhere/'', uploader = ''someone else'',
       directories =
         [\<lparr> directory_path = ''/x'', files = [exampleFile ''a.tiff''] \<rparr>,
          \<lparr> directory_path = ''/y'',
            files = [(exampleFile ''b.jpg'')\<lparr>file_size := 77\<rparr>,
                     (exampleFile ''c.TIF'')\<lparr>cid := Some ''bafy''\<rparr>] \<rparr>] \<rparr>"]
  by (simp add: example_eval)


section \<open>executeBatch\<close>

lemma example_refs:
  "pendingRefs (exampleBatch [''a.tiff'', ''b.jpg'', ''c.TIF'']) (exampleConfig 1000) = [0, 1]"
  by (simp add: batch_eval pendingRefs_def sliceFrom0_def)

text \<open>
  A run over the batch of \<open>a.tiff\<close>, \<open>b.jpg\<close> and \<open>c.TIF\<close> in which the first spawn is
  accepted and the second is answered by status 500.
\<close>

lemma example_run:
  "map (\<lambda>t. (task_id t, status t, retry_count t, started_at t, fly_machine_id t))
     (objectValues (state_after (executeBatch exampleFly exampleClock
        (exampleBatch [''a.tiff'', ''b.jpg'', ''c.TIF'']) (exampleConfig 1000) exampleEnv))) =
   [(''B1_tiff_f4dk12'', processing, 0, Some ''2025-01-01T00:00:00.000Z'', Some ''m-1''),
    (''B1_tiff_e9kdya'', pending, 0, None, None)]"
  by (simp add: batch_eval execute_eval)

lemma selected_status:
  assumes j: "j < length (pendingRefs st c)"
  shows "status (objectValues (state_after (executeBatch fly clock st c e)) ! (pendingRefs st c ! j)) = pending
       \<or> status (objectValues (state_after (executeBatch fly clock st c e)) ! (pendingRefs st c ! j)) = processing"
proof -
  from j have "pendingRefs st c ! j \<in> set (pendingRefs st c)" by simp
  then have "status (objectValues st ! (pendingRefs st c ! j)) = pending"
    by (simp add: pendingRefs_pending)
  then show ?thesis
    unfolding executeBatch_selected [OF j, THEN conjunct1]
    by (simp add: marked_def settle_def written_def spawnFlyMachine_def
        split: FlyResponse.splits)
qed


lemma terminal_iff:
  "(status t = completed \<or> status t = failed) \<longleftrightarrow> \<not> (status t = pending \<or> status t = processing)"
  by (cases "status t") simp_all

text \<open>
  Claim C3.  For every batch state, \<open>executeBatch\<close> returns \<open>more_work = true\<close> if and
  only if, after the spawn results of the call are applied, some task of
  \<open>current_phase_tasks\<close> is \<open>pending\<close> or \<open>processing\<close>; it returns \<open>false\<close> if and only
  if every task is \<open>completed\<close> or \<open>failed\<close>, which includes the empty task map.
\<close>

theorem executeBatch_more_work:
  "(more_work (executeBatch fly clock st c e) \<longleftrightarrow>
      (\<exists>t\<in>set (objectValues (state_after (executeBatch fly clock st c e))).
          status t = pending \<or> status t = processing))
   \<and> (\<not> more_work (executeBatch fly clock st c e) \<longleftrightarrow>
      (\<forall>t\<in>set (objectValues (state_after (executeBatch fly clock st c e))).
          status t = completed \<or> status t = failed))"
proof -
  have main: "more_work (executeBatch fly clock st c e) \<longleftrightarrow>
      (\<exists>t\<in>set (objectValues (state_after (executeBatch fly clock st c e))).
          status t = pending \<or> status t = processing)"
  proof (cases "pendingRefs st c = []")
    case True
    then show ?thesis
      by (simp add: executeBatch_idle list_all_iff terminal_iff)
  next
    case False
    then have j: "0 < length (pendingRefs st c)" by simp
    then have "pendingRefs st c ! 0 \<in> set (pendingRefs st c)" by simp
    then have "pendingRefs st c ! 0 < length (objectValues st)"
      by (simp add: pendingRefs_pending)
    then have "objectValues (state_after (executeBatch fly clock st c e)) ! (pendingRefs st c ! 0)
        \<in> set (objectValues (state_after (executeBatch fly clock st c e)))"
      by (simp add: executeBatch_length)
    with selected_status [OF j, of fly clock e]
    have "\<exists>t\<in>set (objectValues (state_after (executeBatch fly clock st c e))).
          status t = pending \<or> status t = processing"
      by blast
    moreover have "more_work (executeBatch fly clock st c e)"
      using False by (simp add: executeBatch_spawning)
    ultimately show ?thesis by simp
  qed
  show ?thesis
    unfolding main terminal_iff by blast
qed

theorem executeBatch_more_work_witness:
  "more_work (executeBatch exampleFly exampleClock (exampleBatch [''a.tiff'', ''b.jpg'', ''c.TIF'']) (exampleConfig 1000) exampleEnv)
   \<and> \<not> more_work (executeBatch exampleFly exampleClock (exampleState []) (exampleConfig 1000) exampleEnv)
   \<and> \<not> more_work (executeBatch exampleFly exampleClock
         (exampleState [exampleTask ''a.tiff'' completed, exampleTask ''c.TIF'' failed])
         (exampleConfig 1000) exampleEnv)"
proof -
  have "\<exists>t\<in>set (objectValues (state_after (executeBatch exampleFly exampleClock (exampleBatch [''a.tiff'', ''b.jpg'', ''c.TIF'']) (exampleConfig 1000) exampleEnv))).
      status t = pending \<or> status t = processing"
    by (simp add: batch_eval execute_eval)
  with executeBatch_more_work [of exampleFly exampleClock
      "exampleBatch [''a.tiff'', ''b.jpg'', ''c.TIF'']" "exampleConfig 1000" exampleEnv]
  have 1: "more_work (executeBatch exampleFly exampleClock (exampleBatch [''a.tiff'', ''b.jpg'', ''c.TIF'']) (exampleConfig 1000) exampleEnv)"
    by blast
  have "\<forall>t\<in>set (objectValues (state_after
      (executeBatch exampleFly exampleClock (exampleState []) (exampleConfig 1000) exampleEnv))).
      status t = completed \<or> status t = failed"
    by (simp add: exampleState_def exampleConfig_def objectValues_def execute_eval)
  with executeBatch_more_work [of exampleFly exampleClock "exampleState []" "exampleConfig 1000"
      exampleEnv]
  have 2: "\<not> more_work
      (executeBatch exampleFly exampleClock (exampleState []) (exampleConfig 1000) exampleEnv)"
    by blast
  have "\<forall>t\<in>set (objectValues (state_after
      (executeBatch exampleFly exampleClock
         (exampleState [exampleTask ''a.tiff'' completed, exampleTask ''c.TIF'' failed])
         (exampleConfig 1000) exampleEnv))).
      status t = completed \<or> status t = failed"
    by (simp add: task_eval exampleConfig_def objectValues_def execute_eval)
  with executeBatch_more_work [of exampleFly exampleClock
      "exampleState [exampleTask ''a.tiff'' completed, exampleTask ''c.TIF'' failed]"
      "exampleConfig 1000" exampleEnv]
  have 3: "\<not> more_work (executeBatch exampleFly exampleClock
         (exampleState [exampleTask ''a.tiff'' completed, exampleTask ''c.TIF'' failed])
         (exampleConfig 1000) exampleEnv)"
    by blast
  from 1 2 3 show ?thesis by simp
qed

text \<open>
  Claim C4, as the code has it.  In one call of \<open>executeBatch\<close> whose configured batch
  size is not negative, the number of selected tasks, and with it the number of spawn
  requests issued, is at most \<open>BATCH_SIZE_TIFF_CONVERSION\<close>.  For every batch size, every
  selected task is \<open>pending\<close> when it is selected, and the requests issued are exactly
  one per selected task.
\<close>

theorem executeBatch_spawn_bound:
  "(0 \<le> BATCH_SIZE_TIFF_CONVERSION c \<longrightarrow>
      int (length (pendingTasks st c)) \<le> BATCH_SIZE_TIFF_CONVERSION c
      \<and> int (length (spawn_requests (executeBatch fly clock st c e)))
          \<le> BATCH_SIZE_TIFF_CONVERSION c)
   \<and> (\<forall>t\<in>set (pendingTasks st c). status t = pending)
   \<and> spawn_requests (executeBatch fly clock st c e) =
       map (\<lambda>task. machineRequest task st c e) (pendingTasks st c)"
proof -
  have len: "0 \<le> BATCH_SIZE_TIFF_CONVERSION c \<longrightarrow>
      int (length (pendingTasks st c)) \<le> BATCH_SIZE_TIFF_CONVERSION c"
  proof
    assume "0 \<le> BATCH_SIZE_TIFF_CONVERSION c"
    then show "int (length (pendingTasks st c)) \<le> BATCH_SIZE_TIFF_CONVERSION c"
      by (simp add: pendingTasks_source sliceFrom0_nonneg)
  qed
  have pend: "\<forall>t\<in>set (pendingTasks st c). status t = pending"
    unfolding pendingTasks_def using pendingRefs_pending [of _ st c] by auto
  from len pend show ?thesis by (simp add: executeBatch_requests)
qed

theorem executeBatch_spawn_bound_witness:
  "0 \<le> BATCH_SIZE_TIFF_CONVERSION (exampleConfig 1)
   \<and> int (length (spawn_requests (executeBatch exampleFly exampleClock
         (exampleBatch [''a.tiff'', ''b.jpg'', ''c.TIF'']) (exampleConfig 1) exampleEnv))) \<le> 1
   \<and> length (filter (\<lambda>t. status t = pending)
         (objectValues (exampleBatch [''a.tiff'', ''b.jpg'', ''c.TIF'']))) = 2"
proof -
  have h: "0 \<le> BATCH_SIZE_TIFF_CONVERSION (exampleConfig 1)"
    by (simp add: exampleConfig_def)
  have two: "length (filter (\<lambda>t. status t = pending)
         (objectValues (exampleBatch [''a.tiff'', ''b.jpg'', ''c.TIF'']))) = 2"
    by (simp add: batch_eval)
  from executeBatch_spawn_bound [where c = "exampleConfig 1"
      and st = "exampleBatch [''a.tiff'', ''b.jpg'', ''c.TIF'']"
      and fly = exampleFly and clock = exampleClock and e = exampleEnv] h two
  show ?thesis by (simp add: exampleConfig_def)
qed

text \<open>
  The claim as it is written fails for a negative batch size, where \<^verbatim>\<open>slice(0, n)\<close>
  drops tasks from the end of the pending ones instead of keeping a prefix: with three
  pending tasks and batch size \<open>-1\<close> the call selects two tasks and issues two spawn
  requests, which is more than the configured batch size.
\<close>

theorem executeBatch_spawn_bound_counterexample:
  "BATCH_SIZE_TIFF_CONVERSION (exampleConfig (- 1)) = - 1
   \<and> map status (objectValues (exampleBatch [''a.tiff'', ''z.tiff'', ''c.TIF''])) =
       [pending, pending, pending]
   \<and> map task_id (pendingTasks (exampleBatch [''a.tiff'', ''z.tiff'', ''c.TIF'']) (exampleConfig (- 1))) =
       [''B1_tiff_f4dk12'', ''B1_tiff_qyi3vx'']
   \<and> length (spawn_requests (executeBatch exampleFly exampleClock
         (exampleBatch [''a.tiff'', ''z.tiff'', ''c.TIF'']) (exampleConfig (- 1)) exampleEnv)) = 2
   \<and> \<not> int (length (spawn_requests (executeBatch exampleFly exampleClock
         (exampleBatch [''a.tiff'', ''z.tiff'', ''c.TIF'']) (exampleConfig (- 1)) exampleEnv)))
         \<le> BATCH_SIZE_TIFF_CONVERSION (exampleConfig (- 1))"
  by (simp add: executeBatch_requests pendingTasks_def pendingRefs_def sliceFrom0_def batch_eval)

text \<open>
  Claim C6.  For every selected task whose spawn request fails in \<open>executeBatch\<close>, the
  task is left as it was: its status stays \<open>pending\<close> and its retry count is not
  incremented.  A selected task whose spawn succeeds becomes \<open>processing\<close> with
  \<open>started_at\<close> and the machine id set.  Tasks that were not selected are untouched, and
  the counters \<open>tasks_total\<close>, \<open>tasks_completed\<close> and \<open>tasks_failed\<close> of the batch do not
  change.
\<close>

theorem executeBatch_spawn_failure:
  assumes "j < length (pendingRefs st c)"
  shows "status (objectValues st ! (pendingRefs st c ! j)) = pending
   \<and> ((\<forall>machine_id. fly j (machineRequest (objectValues st ! (pendingRefs st c ! j)) st c e) \<noteq> Machine machine_id) \<longrightarrow>
        objectValues (state_after (executeBatch fly clock st c e)) ! (pendingRefs st c ! j)
          = objectValues st ! (pendingRefs st c ! j))
   \<and> (\<forall>machine_id. fly j (machineRequest (objectValues st ! (pendingRefs st c ! j)) st c e) = Machine machine_id \<longrightarrow>
        objectValues (state_after (executeBatch fly clock st c e)) ! (pendingRefs st c ! j)
          = (objectValues st ! (pendingRefs st c ! j))
              \<lparr>status := processing, started_at := Some (clock j), fly_machine_id := machine_id\<rparr>)
   \<and> (\<forall>p<length (objectValues st). p \<notin> set (pendingRefs st c) \<longrightarrow>
        objectValues (state_after (executeBatch fly clock st c e)) ! p = objectValues st ! p)
   \<and> tasks_total (state_after (executeBatch fly clock st c e)) = tasks_total st
   \<and> tasks_completed (state_after (executeBatch fly clock st c e)) = tasks_completed st
   \<and> tasks_failed (state_after (executeBatch fly clock st c e)) = tasks_failed st"
proof -
  from assms have "pendingRefs st c ! j \<in> set (pendingRefs st c)" by simp
  then have pend: "status (objectValues st ! (pendingRefs st c ! j)) = pending"
    by (simp add: pendingRefs_pending)
  have fail: "(\<forall>machine_id. fly j (machineRequest (objectValues st ! (pendingRefs st c ! j)) st c e) \<noteq> Machine machine_id) \<longrightarrow>
        objectValues (state_after (executeBatch fly clock st c e)) ! (pendingRefs st c ! j)
          = objectValues st ! (pendingRefs st c ! j)"
    unfolding executeBatch_selected [OF assms, THEN conjunct1]
    by (simp add: marked_def settle_def written_def spawnFlyMachine_def
        split: FlyResponse.splits)
  have ok: "\<forall>machine_id. fly j (machineRequest (objectValues st ! (pendingRefs st c ! j)) st c e) = Machine machine_id \<longrightarrow>
        objectValues (state_after (executeBatch fly clock st c e)) ! (pendingRefs st c ! j)
          = (objectValues st ! (pendingRefs st c ! j))
              \<lparr>status := processing, started_at := Some (clock j), fly_machine_id := machine_id\<rparr>"
    unfolding executeBatch_selected [OF assms, THEN conjunct1]
    by (simp add: marked_def settle_def written_def spawnFlyMachine_def)
  have other: "\<forall>p<length (objectValues st). p \<notin> set (pendingRefs st c) \<longrightarrow>
        objectValues (state_after (executeBatch fly clock st c e)) ! p = objectValues st ! p"
    by (simp add: executeBatch_other)
  from pend fail ok other executeBatch_frame [of fly clock st c e] show ?thesis by blast
qed

theorem executeBatch_spawn_failure_witness:
  "1 < length (pendingRefs (exampleBatch [''a.tiff'', ''b.jpg'', ''c.TIF'']) (exampleConfig 1000))
   \<and> status (objectValues (state_after (executeBatch exampleFly exampleClock (exampleBatch [''a.tiff'', ''b.jpg'', ''c.TIF'']) (exampleConfig 1000) exampleEnv)) ! 1) = pending
   \<and> retry_count (objectValues (state_after (executeBatch exampleFly exampleClock (exampleBatch [''a.tiff'', ''b.jpg'', ''c.TIF'']) (exampleConfig 1000) exampleEnv)) ! 1) = 0
   \<and> tasks_failed (state_after (executeBatch exampleFly exampleClock (exampleBatch [''a.tiff'', ''b.jpg'', ''c.TIF'']) (exampleConfig 1000) exampleEnv)) = 0"
proof -
  have h: "1 < length (pendingRefs (exampleBatch [''a.tiff'', ''b.jpg'', ''c.TIF'']) (exampleConfig 1000))"
    by (simp add: example_refs)
  have fails: "\<forall>machine_id. exampleFly 1 request \<noteq> Machine machine_id" for request
    by (simp add: exampleFly_def)
  have before: "retry_count (objectValues (exampleBatch [''a.tiff'', ''b.jpg'', ''c.TIF'']) ! 1) = 0"
    "tasks_failed (exampleBatch [''a.tiff'', ''b.jpg'', ''c.TIF'']) = 0"
    by (simp_all add: batch_eval)
  from executeBatch_spawn_failure [OF h, where fly = exampleFly and e = exampleEnv
      and clock = exampleClock] fails before h
  show ?thesis by (simp add: example_refs)
qed

lemma take_sorted_closed:
  fixes xs :: "nat list"
  assumes "sorted_wrt (<) xs" and "r \<in> set (take k xs)" and "q \<in> set xs" and "q < r"
  shows "q \<in> set (take k xs)"
proof -
  from assms(2) obtain i where i: "i < length xs" "i < k" "xs ! i = r"
    by (auto simp add: in_set_conv_nth)
  from assms(3) obtain i' where i': "i' < length xs" "xs ! i' = q"
    by (auto simp add: in_set_conv_nth)
  have "i' < i"
  proof (rule ccontr)
    assume "\<not> i' < i"
    then have "i = i' \<or> i < i'" by auto
    then have "xs ! i \<le> xs ! i'"
      using assms(1) i' by (auto simp add: sorted_wrt_iff_nth_less less_imp_le)
    with i i' assms(4) show False by simp
  qed
  with i i' have "i' < length (take k xs)" "take k xs ! i' = q" by simp_all
  then show ?thesis by (metis nth_mem)
qed

text \<open>
  Claim C9, as the code has it.  The selection is deterministic in the enumeration order
  of \<open>current_phase_tasks\<close>, not in the order of the task ids: for a batch size that is
  not negative the selected tasks are the first \<open>BATCH_SIZE_TIFF_CONVERSION\<close> pending
  tasks in the order in which \<^verbatim>\<open>Object.values\<close> lists them.  The selected positions are
  increasing, and every pending task that comes before a selected one is selected too.
\<close>

theorem pendingTasks_enumeration_order:
  assumes "0 \<le> BATCH_SIZE_TIFF_CONVERSION c"
  shows "pendingTasks st c =
       take (nat (BATCH_SIZE_TIFF_CONVERSION c)) (filter (\<lambda>t. status t = pending) (objectValues st))
     \<and> pendingTasks st c = map (\<lambda>r. objectValues st ! r) (pendingRefs st c)
     \<and> sorted_wrt (<) (pendingRefs st c)
     \<and> (\<forall>r\<in>set (pendingRefs st c). \<forall>q<r.
          status (objectValues st ! q) = pending \<longrightarrow> q \<in> set (pendingRefs st c))"
proof -
  define P where "P = filter (\<lambda>r. status (objectValues st ! r) = pending) [0..<length (objectValues st)]"
  obtain k where k: "pendingRefs st c = take k P"
    unfolding pendingRefs_def P_def using sliceFrom0_take by blast
  have sorted: "sorted_wrt (<) P" unfolding P_def by (simp add: sorted_wrt_filter)
  have closed: "\<forall>r\<in>set (pendingRefs st c). \<forall>q<r.
          status (objectValues st ! q) = pending \<longrightarrow> q \<in> set (pendingRefs st c)"
  proof (intro ballI allI impI)
    fix r q assume r: "r \<in> set (pendingRefs st c)" and q: "q < r"
      and pq: "status (objectValues st ! q) = pending"
    from r have "r < length (objectValues st)" by (simp add: pendingRefs_pending)
    with q pq have "q \<in> set P" unfolding P_def by simp
    with sorted r q show "q \<in> set (pendingRefs st c)"
      unfolding k by (blast intro: take_sorted_closed)
  qed
  from assms have "pendingTasks st c =
       take (nat (BATCH_SIZE_TIFF_CONVERSION c)) (filter (\<lambda>t. status t = pending) (objectValues st))"
    by (simp add: pendingTasks_source sliceFrom0_nonneg)
  with closed show ?thesis by (simp add: pendingTasks_def pendingRefs_sorted)
qed

theorem pendingTasks_enumeration_order_witness:
  "0 \<le> BATCH_SIZE_TIFF_CONVERSION (exampleConfig 1)
   \<and> map task_id (objectValues (exampleBatch [''z.tiff'', ''a.tiff''])) =
       [''B1_tiff_qyi3vx'', ''B1_tiff_f4dk12'']
   \<and> map task_id (pendingTasks (exampleBatch [''z.tiff'', ''a.tiff'']) (exampleConfig 1)) =
       [''B1_tiff_qyi3vx'']"
proof -
  have h: "0 \<le> BATCH_SIZE_TIFF_CONVERSION (exampleConfig 1)"
    by (simp add: exampleConfig_def)
  from pendingTasks_enumeration_order [OF h, of "exampleBatch [''z.tiff'', ''a.tiff'']"] h
  show ?thesis by (simp add: batch_eval)
qed

text \<open>
  The claim as it is written fails: in a state that lists the task of \<open>z.tiff\<close> before
  the task of \<open>a.tiff\<close>, a call with batch size 1 selects the task of \<open>z.tiff\<close>, whose id
  \<open>B1_tiff_qyi3vx\<close> is the greater of the two, and not the task with the least id.
\<close>

theorem pendingTasks_not_by_task_id:
  "map task_id (pendingTasks (exampleBatch [''z.tiff'', ''a.tiff'']) (exampleConfig 1)) =
     [''B1_tiff_qyi3vx'']
   \<and> map task_id (firstPendingByTaskId (exampleBatch [''z.tiff'', ''a.tiff'']) (exampleConfig 1)) =
     [''B1_tiff_f4dk12'']
   \<and> pendingTasks (exampleBatch [''z.tiff'', ''a.tiff'']) (exampleConfig 1)
      \<noteq> firstPendingByTaskId (exampleBatch [''z.tiff'', ''a.tiff'']) (exampleConfig 1)"
  by (simp add: batch_eval pendingTasks_def pendingRefs_def sliceFrom0_def firstPendingByTaskId_def)


section \<open>handleCallback\<close>

text \<open>
  Claim C1, as the code has it.  For every task and every worker callback with status
  \<open>error\<close>, \<open>handleCallback\<close> sets the task to \<open>failed\<close>, stores the reported error,
  leaves the retry count of the task as it is and adds one to \<open>tasks_failed\<close>; the other
  counters do not change.  The phase has no retry limit and never sets a task back to
  \<open>pending\<close>.
\<close>

theorem handleCallback_error:
  assumes "result_status result = status_error"
  shows "handleCallback now task result state =
       (task\<lparr>status := failed, error := result_error result\<rparr>,
        state\<lparr>tasks_failed := tasks_failed state + 1\<rparr>)
     \<and> status (fst (handleCallback now task result state)) = failed
     \<and> retry_count (fst (handleCallback now task result state)) = retry_count task
     \<and> tasks_failed (snd (handleCallback now task result state)) = tasks_failed state + 1
     \<and> tasks_completed (snd (handleCallback now task result state)) = tasks_completed state
     \<and> tasks_total (snd (handleCallback now task result state)) = tasks_total state"
  using assms by (simp add: handleCallback_def)

theorem handleCallback_error_witness:
  "result_status exampleError = status_error
   \<and> status (fst (handleCallback ''2025-01-01T00:00:05.000Z'' (exampleTask ''a.tiff'' processing)
        exampleError (exampleState [exampleTask ''a.tiff'' processing]))) = failed
   \<and> tasks_failed (snd (handleCallback ''2025-01-01T00:00:05.000Z'' (exampleTask ''a.tiff'' processing)
        exampleError (exampleState [exampleTask ''a.tiff'' processing]))) = 1"
proof -
  have h: "result_status exampleError = status_error" by (simp add: exampleError_def)
  from handleCallback_error [OF h, of "''2025-01-01T00:00:05.000Z''"
      "exampleTask ''a.tiff'' processing" "exampleState [exampleTask ''a.tiff'' processing]"] h
  show ?thesis by (simp add: exampleState_def)
qed

text \<open>
  The claim as it is written fails: a processing task with retry count 0 that receives
  an error callback is not set back to \<open>pending\<close> with retry count 1; it is \<open>failed\<close>,
  its retry count is still 0, and \<open>tasks_failed\<close> has gone from 0 to 1.
\<close>

theorem handleCallback_error_counterexample:
  "result_status exampleError = status_error
   \<and> status (exampleTask ''a.tiff'' processing) = processing
   \<and> retry_count (exampleTask ''a.tiff'' processing) = 0
   \<and> status (fst (handleCallback ''2025-01-01T00:00:05.000Z'' (exampleTask ''a.tiff'' processing)
        exampleError (exampleState [exampleTask ''a.tiff'' processing]))) = failed
   \<and> status (fst (handleCallback ''2025-01-01T00:00:05.000Z'' (exampleTask ''a.tiff'' processing)
        exampleError (exampleState [exampleTask ''a.tiff'' processing]))) \<noteq> pending
   \<and> retry_count (fst (handleCallback ''2025-01-01T00:00:05.000Z'' (exampleTask ''a.tiff'' processing)
        exampleError (exampleState [exampleTask ''a.tiff'' processing]))) = 0
   \<and> tasks_failed (exampleState [exampleTask ''a.tiff'' processing]) = 0
   \<and> tasks_failed (snd (handleCallback ''2025-01-01T00:00:05.000Z'' (exampleTask ''a.tiff'' processing)
        exampleError (exampleState [exampleTask ''a.tiff'' processing]))) = 1"
  by (simp add: handleCallback_def task_eval)

text \<open>
  Claim C2, as the code has it.  \<open>handleCallback\<close> does not look at the status of the
  task it is given: whatever that status is, a success callback makes the task
  \<open>completed\<close> and an error callback makes it \<open>failed\<close>.  Applying the same callback a
  second time, at the same reading of the clock, leaves the task as the first
  application left it, but adds to the counter again: after two applications
  \<open>tasks_completed\<close> (for success) or \<open>tasks_failed\<close> (for error) has grown by two.
\<close>

theorem handleCallback_twice:
  "fst (handleCallback now (fst (handleCallback now task result state)) result
         (snd (handleCallback now task result state)))
     = fst (handleCallback now task result state)
   \<and> status (fst (handleCallback now task result state)) =
       (if result_status result = status_success then completed else failed)
   \<and> tasks_completed (snd (handleCallback now (fst (handleCallback now task result state)) result
         (snd (handleCallback now task result state))))
     = tasks_completed state + (if result_status result = status_success then 2 else 0)
   \<and> tasks_failed (snd (handleCallback now (fst (handleCallback now task result state)) result
         (snd (handleCallback now task result state))))
     = tasks_failed state + (if result_status result = status_success then 0 else 2)"
  by (simp add: handleCallback_def)

theorem handleCallback_twice_witness:
  "tasks_failed (snd (handleCallback ''2025-01-01T00:00:05.000Z''
        (fst (handleCallback ''2025-01-01T00:00:05.000Z'' (exampleTask ''a.tiff'' processing)
           exampleError (exampleState [exampleTask ''a.tiff'' processing])))
        exampleError
        (snd (handleCallback ''2025-01-01T00:00:05.000Z'' (exampleTask ''a.tiff'' processing)
           exampleError (exampleState [exampleTask ''a.tiff'' processing]))))) = 2"
  using handleCallback_twice [of "''2025-01-01T00:00:05.000Z''" "exampleTask ''a.tiff'' processing"
      exampleError "exampleState [exampleTask ''a.tiff'' processing]"]
  by (simp add: exampleError_def exampleState_def)

text \<open>
  The claim as it is written fails: a success callback applied to a task leaves it
  \<open>completed\<close> with \<open>tasks_completed = 1\<close>, and the same callback applied again to that
  completed task raises \<open>tasks_completed\<close> to 2; a success callback applied to a
  \<open>failed\<close> task turns it into a \<open>completed\<close> one.
\<close>

theorem handleCallback_twice_counterexample:
  "status (fst (handleCallback ''2025-01-01T00:00:05.000Z'' (exampleTask ''a.tiff'' processing)
       exampleSuccess (exampleState [exampleTask ''a.tiff'' processing]))) = completed
   \<and> tasks_completed (snd (handleCallback ''2025-01-01T00:00:05.000Z'' (exampleTask ''a.tiff'' processing)
       exampleSuccess (exampleState [exampleTask ''a.tiff'' processing]))) = 1
   \<and> tasks_completed (snd (handleCallback ''2025-01-01T00:00:05.000Z''
        (fst (handleCallback ''2025-01-01T00:00:05.000Z'' (exampleTask ''a.tiff'' processing)
           exampleSuccess (exampleState [exampleTask ''a.tiff'' processing])))
        exampleSuccess
        (snd (handleCallback ''2025-01-01T00:00:05.000Z'' (exampleTask ''a.tiff'' processing)
           exampleSuccess (exampleState [exampleTask ''a.tiff'' processing]))))) = 2
   \<and> status (fst (handleCallback ''2025-01-01T00:00:09.000Z'' (exampleTask ''a.tiff'' failed)
       exampleSuccess (exampleState [exampleTask ''a.tiff'' failed]))) = completed"
  by (simp add: handleCallback_def task_eval)


section \<open>The callback route of the HTTP handler\<close>

lemma callback_path:
  assumes "startsWith p ''/callback/''"
  shows "p \<noteq> ''/health'' \<and> \<not> startsWith p ''/status/''"
proof -
  have len10: "length ''/callback/'' = 10" by simp
  have len8: "length ''/status/'' = 8" by simp
  from assms have t: "take 10 p = ''/callback/''"
    unfolding startsWith_def len10 .
  have "take 8 p = take 8 (take 10 p)" by simp
  with t have "take 8 p = ''/callbac''" by simp
  then have "\<not> startsWith p ''/status/''"
    unfolding startsWith_def len8 by simp
  moreover from t have "p \<noteq> ''/health''" by auto
  ultimately show ?thesis by simp
qed

text \<open>
  Claim C8, as the code has it.  For a POST request whose path starts with
  \<^verbatim>\<open>/callback/\<close>: the response is 400, with the storage of the durable objects
  untouched, exactly when the batch id or the task id is missing from the path.
  Otherwise, when reading the body as JSON throws, the response is 500 with the message
  of the error and the durable object is not called; when the body parses, the durable
  object is called, and the response is 200 \<^verbatim>\<open>{ok:true}\<close> if the call returns and 500
  if it throws.
\<close>

theorem fetch_callback:
  assumes "startsWith (pathname request) ''/callback/''" and "request_method request = ''POST''"
  shows
   "(response_status (fst (fetch stub now request storage)) = 400 \<longleftrightarrow>
       falsy (at_index (split (CHR ''/'') (pathname request)) 2)
       \<or> falsy (at_index (split (CHR ''/'') (pathname request)) 3))
    \<and> (response_status (fst (fetch stub now request storage)) = 400 \<longrightarrow>
         snd (fetch stub now request storage) = storage)
    \<and> (\<not> falsy (at_index (split (CHR ''/'') (pathname request)) 2)
       \<and> \<not> falsy (at_index (split (CHR ''/'') (pathname request)) 3) \<longrightarrow>
       fetch stub now request storage =
         (case request_json request of
            Inl message \<Rightarrow>
              (\<lparr> response_status = 500, response_body = ErrorBody message \<rparr>, storage)
          | Inr callbackResult \<Rightarrow>
              (case stub_handleCallback stub
                      (the (at_index (split (CHR ''/'') (pathname request)) 2))
                      (the (at_index (split (CHR ''/'') (pathname request)) 3))
                      callbackResult storage of
                 (None, storage') \<Rightarrow>
                   (\<lparr> response_status = 200, response_body = OkBody \<rparr>, storage')
               | (Some message, storage') \<Rightarrow>
                   (\<lparr> response_status = 500, response_body = ErrorBody message \<rparr>, storage'))))"
proof -
  from callback_path [OF assms(1)] assms
  have F: "fetch stub now request storage =
     (if falsy (at_index (split (CHR ''/'') (pathname request)) 2)
         \<or> falsy (at_index (split (CHR ''/'') (pathname request)) 3) then
        (\<lparr> response_status = 400,
           response_body = ErrorBody ''Missing batch ID or task ID'' \<rparr>, storage)
      else
        (case request_json request of
           Inl message \<Rightarrow> (caught message, storage)
         | Inr callbackResult \<Rightarrow>
             (case stub_handleCallback stub
                     (the (at_index (split (CHR ''/'') (pathname request)) 2))
                     (the (at_index (split (CHR ''/'') (pathname request)) 3))
                     callbackResult storage of
                (Some message, storage') \<Rightarrow> (caught message, storage')
              | (None, storage') \<Rightarrow>
                  (\<lparr> response_status = 200, response_body = OkBody \<rparr>, storage'))))"
    by (simp add: fetch_def Let_def)
  show ?thesis
    unfolding F
    by (auto simp add: caught_def split: sum.splits prod.splits option.splits)
qed

theorem fetch_callback_witness:
  "fetch exampleStub ''2025-01-01T00:00:05.000Z''
        (exampleRequest ''/callback/B1/B1_tiff_f4dk12'' (Inr exampleSuccess)) 0
      = (\<lparr> response_status = 200, response_body = OkBody \<rparr>, 1)"
proof -
  have a: "startsWith (pathname (exampleRequest ''/callback/B1/B1_tiff_f4dk12'' (Inr exampleSuccess))) ''/callback/''"
    by (simp add: exampleRequest_def startsWith_def)
  have b: "request_method (exampleRequest ''/callback/B1/B1_tiff_f4dk12'' (Inr exampleSuccess)) = ''POST''"
    by (simp add: exampleRequest_def)
  from fetch_callback [OF a b, of exampleStub "''2025-01-01T00:00:05.000Z''" 0]
  show ?thesis
    by (simp add: exampleRequest_def at_index_def falsy_def exampleStub_def)
qed

text \<open>
  The claim as it is written fails: a POST to a path with both ids and a body that is not
  JSON is answered by status 500, not by a 4xx status.
\<close>

theorem fetch_callback_counterexample:
  "\<not> falsy (at_index (split (CHR ''/'') ''/callback/B1/B1_tiff_f4dk12'') 2)
   \<and> \<not> falsy (at_index (split (CHR ''/'') ''/callback/B1/B1_tiff_f4dk12'') 3)
   \<and> fetch exampleStub ''2025-01-01T00:00:05.000Z''
        (exampleRequest ''/callback/B1/B1_tiff_f4dk12'' (Inl ''Unexpected end of JSON input'')) 0
      = (\<lparr> response_status = 500,
            response_body = ErrorBody ''Unexpected end of JSON input'' \<rparr>, 0)"
  by (simp add: fetch_def exampleRequest_def startsWith_def at_index_def falsy_def caught_def)

end
